theory Spec2Isabelle
  imports
    Complex_Main
    "HOL-Library.AList"
    "HOL-Library.Char_ord"
    "HOL-Library.List_Lexorder"
    "HOL-Library.Sublist"
begin

section \<open>The response cache of the Trusted Advisor server (utils/cacheUtils)\<close>

text \<open>
  The development embeds the class \<^verbatim>\<open>ResponseCache<T>\<close> and the helpers
  \<^verbatim>\<open>withCache\<close> and \<^verbatim>\<open>invalidateCache\<close>.

  \<^item> Times and durations are milliseconds as \<open>int\<close>; every call of \<^verbatim>\<open>Date.now()\<close>
    is an explicit argument \<open>now\<close>.
  \<^item> The \<^verbatim>\<open>Map<string, CacheEntry<T>>\<close> is an association list in insertion order
    (the iteration order of a JavaScript \<^verbatim>\<open>Map\<close>): \<^verbatim>\<open>Map.set\<close> replaces the value of a
    present key in place and appends a new key, which is \<open>AList.update\<close>;
    \<^verbatim>\<open>Map.delete\<close> is \<open>AList.delete\<close>, \<^verbatim>\<open>Map.get\<close> is \<open>map_of\<close>, \<^verbatim>\<open>Map.size\<close> is \<open>length\<close>.
  \<^item> A params bag (\<^verbatim>\<open>Record<string, unknown>\<close>) is the list of its properties in the
    order they were inserted; values are of an arbitrary type \<open>'p\<close>.
  \<^item> The mutable object is passed in and returned: each method takes the cache \<open>s\<close>
    and gives back the new one.
\<close>

subsection \<open>Data\<close>

record 'a CacheEntry =
  data :: 'a
  timestamp :: int
  ttl :: int
  accessCount :: nat
  lastAccessed :: int

text \<open>The argument of the constructor: every field is optional.\<close>

record CacheOptions =
  ttl_arg :: "int option"
  maxSize_arg :: "int option"
  autoCleanup_arg :: "bool option"
  cleanupInterval_arg :: "int option"

text \<open>
  \<^verbatim>\<open>this.options\<close> after the constructor has run: all four fields are set, which is
  what the non-null assertions \<^verbatim>\<open>this.options.ttl!\<close> and \<^verbatim>\<open>this.options.maxSize!\<close> rely on.
\<close>

record Options =
  ttl_opt :: int
  maxSize :: int
  autoCleanup :: bool
  cleanupInterval :: int

text \<open>\<open>cleanupTimer\<close> is \<open>True\<close> while an interval timer is armed (\<^verbatim>\<open>null\<close> is \<open>False\<close>).\<close>

record 'a ResponseCache =
  cache :: "(string \<times> 'a CacheEntry) list"
  cleanupTimer :: bool
  options :: Options

text \<open>
  What the code takes from the platform and not from this repository:
  \<^verbatim>\<open>createHash('sha256').update(s).digest('hex')\<close>, \<^verbatim>\<open>JSON.stringify\<close> of an object given
  as its property list, and the truthiness of a cached value (\<^verbatim>\<open>if (cached)\<close>).
  They are parameters of the model. \<^verbatim>\<open>JSON.stringify\<close> does not return for every object:
  on a value it cannot serialise (a \<^verbatim>\<open>BigInt\<close>, a cyclic structure) it throws a
  \<^verbatim>\<open>TypeError\<close>. \<open>JSON_throws\<close> says for which objects it throws, \<open>JSON_stringify\<close> is
  the string it returns for the others.
\<close>

record ('p, 'a) runtime =
  sha256_hex :: "string \<Rightarrow> string"
  JSON_stringify :: "(string \<times> 'p) list \<Rightarrow> string"
  JSON_throws :: "(string \<times> 'p) list \<Rightarrow> bool"
  to_boolean :: "'a \<Rightarrow> bool"

datatype error = TypeError

subsection \<open>Construction\<close>

text \<open>
  The destructuring defaults apply to absent fields only; a given value is taken as it
  is. The constructor body has no \<^verbatim>\<open>throw\<close>.
\<close>

definition new_ResponseCache :: "CacheOptions \<Rightarrow> 'a ResponseCache" where
  "new_ResponseCache opts =
     (let ttl' = (case ttl_arg opts of Some t \<Rightarrow> t | None \<Rightarrow> 5 * 60 * 1000);
          maxSize' = (case maxSize_arg opts of Some m \<Rightarrow> m | None \<Rightarrow> 100);
          autoCleanup' = (case autoCleanup_arg opts of Some b \<Rightarrow> b | None \<Rightarrow> True);
          cleanupInterval' = (case cleanupInterval_arg opts of Some i \<Rightarrow> i | None \<Rightarrow> 60 * 1000)
      in \<lparr> cache = [],
           cleanupTimer = autoCleanup',
           options = \<lparr> ttl_opt = ttl', maxSize = maxSize', autoCleanup = autoCleanup',
                       cleanupInterval = cleanupInterval' \<rparr> \<rparr>)"

text \<open>The completion of \<^verbatim>\<open>new ResponseCache(options)\<close>: \<open>Inl\<close> would be a thrown error.\<close>

definition construct :: "CacheOptions \<Rightarrow> error + 'a ResponseCache" where
  "construct opts = Inr (new_ResponseCache opts)"

subsection \<open>Key derivation\<close>

text \<open>
  \<^verbatim>\<open>Object.keys(params).sort().reduce((acc, key) => { acc[key] = params[key]; return acc }, {})\<close>.
  The keys come from \<open>params\<close> itself, so the lookup \<^verbatim>\<open>params[key]\<close> finds a value; the
  \<open>None\<close> branch is never taken. \<^verbatim>\<open>sort()\<close> without a comparator orders strings by their
  code units, here the lexicographic order on the characters. The result is the new
  object as the list of the properties in the order the loop assigns them (an
  assignment to a key already there keeps its place); the order in which
  \<^verbatim>\<open>JSON.stringify\<close> then visits them is part of the parameter \<open>JSON_stringify\<close>.
\<close>

definition sortedParams :: "(string \<times> 'p) list \<Rightarrow> (string \<times> 'p) list" where
  "sortedParams params =
     foldl (\<lambda>acc key. case map_of params key of
                          Some v \<Rightarrow> AList.update key v acc
                        | None \<Rightarrow> acc)
           [] (sort (map fst params))"

definition generateKey :: "('p, 'a) runtime \<Rightarrow> string \<Rightarrow> (string \<times> 'p) list \<Rightarrow> string" where
  "generateKey rt operation params =
     (let paramString = JSON_stringify rt (sortedParams params);
          hash = sha256_hex rt (operation @ '':'' @ paramString)
      in operation @ ''_'' @ take 16 hash)"

subsection \<open>The store\<close>

definition get ::
  "('p, 'a) runtime \<Rightarrow> 'a ResponseCache \<Rightarrow> string \<Rightarrow> (string \<times> 'p) list \<Rightarrow> int
     \<Rightarrow> 'a option \<times> 'a ResponseCache" where
  "get rt s operation params now =
     (let key = generateKey rt operation params in
      case map_of (cache s) key of
        None \<Rightarrow> (None, s)
      | Some entry \<Rightarrow>
          if now - timestamp entry > ttl entry
          then (None, s\<lparr>cache := AList.delete key (cache s)\<rparr>)
          else (Some (data entry),
                s\<lparr>cache := AList.update key
                     (entry\<lparr>accessCount := accessCount entry + 1, lastAccessed := now\<rparr>)
                     (cache s)\<rparr>))"

text \<open>
  The scan of \<^verbatim>\<open>evictLeastRecentlyUsed\<close>: \<open>lruTime\<close> starts at \<^verbatim>\<open>Infinity\<close>, which is
  \<open>None\<close> here, and every number is below it.
\<close>

fun lru_scan ::
  "(string \<times> 'a CacheEntry) list \<Rightarrow> string option \<times> int option \<Rightarrow> string option \<times> int option"
where
  "lru_scan [] acc = acc"
| "lru_scan ((key, entry) # rest) (lruKey, lruTime) =
     (if (case lruTime of None \<Rightarrow> True | Some t \<Rightarrow> lastAccessed entry < t)
      then lru_scan rest (Some key, Some (lastAccessed entry))
      else lru_scan rest (lruKey, lruTime))"

text \<open>\<^verbatim>\<open>if (lruKey)\<close> is false for \<^verbatim>\<open>undefined\<close> and for the empty string.\<close>

definition evictLeastRecentlyUsed :: "'a ResponseCache \<Rightarrow> 'a ResponseCache" where
  "evictLeastRecentlyUsed s =
     (if length (cache s) = 0 then s
      else case fst (lru_scan (cache s) (None, None)) of
             None \<Rightarrow> s
           | Some lruKey \<Rightarrow>
               if lruKey \<noteq> [] then s\<lparr>cache := AList.delete lruKey (cache s)\<rparr> else s)"

text \<open>
  \<^verbatim>\<open>customTtl || this.options.ttl!\<close>: an absent and a zero \<open>customTtl\<close> both fall back
  to the default.
\<close>

definition set_op ::
  "('p, 'a) runtime \<Rightarrow> 'a ResponseCache \<Rightarrow> string \<Rightarrow> (string \<times> 'p) list \<Rightarrow> 'a \<Rightarrow> int option
     \<Rightarrow> int \<Rightarrow> 'a ResponseCache" where
  "set_op rt s operation params d customTtl now =
     (let key = generateKey rt operation params;
          ttl' = (case customTtl of
                    None \<Rightarrow> ttl_opt (options s)
                  | Some t \<Rightarrow> if t \<noteq> 0 then t else ttl_opt (options s));
          entry = \<lparr> data = d, timestamp = now, ttl = ttl', accessCount = 1,
                    lastAccessed = now \<rparr>;
          s1 = (if int (length (cache s)) \<ge> maxSize (options s)
                then evictLeastRecentlyUsed s else s)
      in s1\<lparr>cache := AList.update key entry (cache s1)\<rparr>)"

definition delete_op ::
  "('p, 'a) runtime \<Rightarrow> 'a ResponseCache \<Rightarrow> string \<Rightarrow> (string \<times> 'p) list
     \<Rightarrow> bool \<times> 'a ResponseCache" where
  "delete_op rt s operation params =
     (let key = generateKey rt operation params in
      (key \<in> set (map fst (cache s)), s\<lparr>cache := AList.delete key (cache s)\<rparr>))"

definition clear :: "'a ResponseCache \<Rightarrow> 'a ResponseCache" where
  "clear s = s\<lparr>cache := []\<rparr>"

text \<open>
  The completion of a call, as the caller sees it. The first statement of \<^verbatim>\<open>get\<close>,
  \<^verbatim>\<open>set\<close> and \<^verbatim>\<open>delete\<close> is the key derivation, and \<^verbatim>\<open>JSON.stringify\<close> throws there for
  params it cannot serialise, before the store is read or written; no other statement
  of these methods throws. \<^verbatim>\<open>clear\<close> derives no key. \<open>Inl\<close> is the thrown error, \<open>Inr\<close>
  the normal completion, which is what \<open>get\<close>, \<open>set_op\<close>, \<open>delete_op\<close> and \<open>clear\<close> describe.
  \<open>withCache\<close> below is likewise described for params that serialise (for the others
  its lookup throws inside the promise executor and the promise rejects with that
  error).
\<close>

definition generateKey_call ::
  "('p, 'a) runtime \<Rightarrow> string \<Rightarrow> (string \<times> 'p) list \<Rightarrow> error + string" where
  "generateKey_call rt operation params =
     (if JSON_throws rt (sortedParams params) then Inl TypeError
      else Inr (generateKey rt operation params))"

definition get_call ::
  "('p, 'a) runtime \<Rightarrow> 'a ResponseCache \<Rightarrow> string \<Rightarrow> (string \<times> 'p) list \<Rightarrow> int
     \<Rightarrow> error + 'a option \<times> 'a ResponseCache" where
  "get_call rt s operation params now =
     (case generateKey_call rt operation params of
        Inl e \<Rightarrow> Inl e
      | Inr k \<Rightarrow> Inr (get rt s operation params now))"

definition set_call ::
  "('p, 'a) runtime \<Rightarrow> 'a ResponseCache \<Rightarrow> string \<Rightarrow> (string \<times> 'p) list \<Rightarrow> 'a \<Rightarrow> int option
     \<Rightarrow> int \<Rightarrow> error + 'a ResponseCache" where
  "set_call rt s operation params d customTtl now =
     (case generateKey_call rt operation params of
        Inl e \<Rightarrow> Inl e
      | Inr k \<Rightarrow> Inr (set_op rt s operation params d customTtl now))"

definition delete_call ::
  "('p, 'a) runtime \<Rightarrow> 'a ResponseCache \<Rightarrow> string \<Rightarrow> (string \<times> 'p) list
     \<Rightarrow> error + bool \<times> 'a ResponseCache" where
  "delete_call rt s operation params =
     (case generateKey_call rt operation params of
        Inl e \<Rightarrow> Inl e
      | Inr k \<Rightarrow> Inr (delete_op rt s operation params))"

definition clear_call :: "'a ResponseCache \<Rightarrow> error + 'a ResponseCache" where
  "clear_call s = Inr (clear s)"

record StatsEntry =
  key :: string
  age :: int
  accessCountS :: nat

record Stats =
  size_n :: nat
  maxSize_n :: int
  hitRate :: rat
  entries :: "StatsEntry list"

text \<open>\<^verbatim>\<open>getStats\<close> reads the cache and writes nothing; it is returned unchanged.\<close>

definition getStats :: "'a ResponseCache \<Rightarrow> int \<Rightarrow> Stats \<times> 'a ResponseCache" where
  "getStats s now =
     (let entries' = map (\<lambda>(k, entry). \<lparr> key = k, age = now - timestamp entry,
                                         accessCountS = accessCount entry \<rparr>) (cache s);
          totalAccesses = foldl (\<lambda>sum entry. sum + accessCountS entry) 0 entries';
          hitRate' = (if totalAccesses > 0
                      then of_nat (length (cache s)) / of_nat totalAccesses else 0)
      in (\<lparr> size_n = length (cache s), maxSize_n = maxSize (options s),
            hitRate = hitRate', entries = entries' \<rparr>, s))"

definition cleanup :: "'a ResponseCache \<Rightarrow> int \<Rightarrow> 'a ResponseCache" where
  "cleanup s now =
     (let keysToDelete =
            map fst (filter (\<lambda>(k, entry). now - timestamp entry > ttl entry) (cache s))
      in s\<lparr>cache := foldl (\<lambda>c k. AList.delete k c) (cache s) keysToDelete\<rparr>)"

definition stopCleanup :: "'a ResponseCache \<Rightarrow> 'a ResponseCache" where
  "stopCleanup s = (if cleanupTimer s then s\<lparr>cleanupTimer := False\<rparr> else s)"

definition destroy :: "'a ResponseCache \<Rightarrow> 'a ResponseCache" where
  "destroy s = clear (stopCleanup s)"

subsection \<open>The memoizer\<close>

text \<open>
  The handler is a call with an effect on the world outside the cache (\<open>'w\<close>) whose
  promise settles with a value (\<open>Inr\<close>) or a rejection (\<open>Inl\<close>). \<open>t_get\<close> is the time of
  the lookup, \<open>t_set\<close> the time at which the handler's promise has resolved and the
  result is stored. The result is the settlement of the returned promise, the cache and
  the world.
\<close>

definition withCache ::
  "('p, 'a) runtime \<Rightarrow> 'a ResponseCache \<Rightarrow> string \<Rightarrow> ('w \<Rightarrow> ('e + 'a) \<times> 'w)
     \<Rightarrow> (string \<times> 'p) list \<Rightarrow> int option \<Rightarrow> int \<Rightarrow> int \<Rightarrow> 'w
     \<Rightarrow> ('e + 'a) \<times> 'a ResponseCache \<times> 'w" where
  "withCache rt s operation handler params customTtl t_get t_set w =
     (let (cached, s1) = get rt s operation params t_get;
          run_handler =
            (case handler w of
               (Inr result, w') \<Rightarrow>
                 (Inr result, set_op rt s1 operation params result customTtl t_set, w')
             | (Inl err, w') \<Rightarrow> (Inl err, s1, w'))
      in case cached of
           None \<Rightarrow> run_handler
         | Some c \<Rightarrow> if to_boolean rt c then (Inr c, s1, w) else run_handler)"

text \<open>
  \<^verbatim>\<open>entry.key.includes(pattern)\<close> is \<open>sublist\<close>; \<^verbatim>\<open>entry.key.split('_')[0]\<close> is the part of
  the key before its first underscore (the whole key when it has none).
\<close>

definition invalidateCache :: "'a ResponseCache \<Rightarrow> string \<Rightarrow> int \<Rightarrow> nat \<times> 'a ResponseCache" where
  "invalidateCache s pattern now =
     (let (stats, s1) = getStats s now;
          invalidatedCount =
            foldl (\<lambda>n entry.
                     if sublist pattern (key entry)
                     then (let operation = takeWhile (\<lambda>c. c \<noteq> CHR ''_'') (key entry)
                           in if operation = pattern then n + 1 else n)
                     else n)
                  0 (entries stats)
      in (invalidatedCount, s1))"

subsection \<open>Sequences of operations\<close>

text \<open>
  The calls a client can make on one cache, each with the time at which it runs, and the
  background sweep (\<^verbatim>\<open>cleanup\<close>, run by the interval timer between two calls).
\<close>

datatype ('p, 'a) cache_op =
    Get string "(string \<times> 'p) list" int
  | Set string "(string \<times> 'p) list" 'a "int option" int
  | Delete string "(string \<times> 'p) list"
  | Clear
  | Cleanup int

fun apply_op :: "('p, 'a) runtime \<Rightarrow> 'a ResponseCache \<Rightarrow> ('p, 'a) cache_op \<Rightarrow> 'a ResponseCache" where
  "apply_op rt s (Get operation params now) = snd (get rt s operation params now)"
| "apply_op rt s (Set operation params d customTtl now) =
     set_op rt s operation params d customTtl now"
| "apply_op rt s (Delete operation params) = snd (delete_op rt s operation params)"
| "apply_op rt s Clear = clear s"
| "apply_op rt s (Cleanup now) = cleanup s now"

definition run_ops ::
  "('p, 'a) runtime \<Rightarrow> 'a ResponseCache \<Rightarrow> ('p, 'a) cache_op list \<Rightarrow> 'a ResponseCache" where
  "run_ops rt s ops = foldl (apply_op rt) s ops"

text \<open>
  The invariant of a cache: keys are unique (it is a \<^verbatim>\<open>Map\<close>), no key is the empty
  string (every key is made by \<open>generateKey\<close>), and the size is within the cap.
\<close>

definition cache_inv :: "'a ResponseCache \<Rightarrow> bool" where
  "cache_inv s \<longleftrightarrow>
     distinct (map fst (cache s)) \<and> [] \<notin> fst ` set (cache s)
       \<and> int (length (cache s)) \<le> maxSize (options s)"

subsection \<open>A runtime for evaluating examples\<close>

text \<open>
  The theorems below hold for every runtime. To evaluate a concrete run the parameters
  need values: params carry strings, cached values are integers (falsy exactly when
  zero, as a JavaScript number is), the serialisation writes \<open>key:value,\<close> for each
  property and never throws (a string always serialises), and the digest returns its
  input. The examples use operation names of equal
  length without underscore, so their keys differ in the operation prefix whatever the
  digest is.
\<close>

definition example_runtime :: "(string, int) runtime" where
  "example_runtime =
     \<lparr> sha256_hex = (\<lambda>s. s),
       JSON_stringify = (\<lambda>ps. concat (map (\<lambda>(k, v). k @ '':'' @ v @ '','') ps)),
       JSON_throws = (\<lambda>ps. False),
       to_boolean = (\<lambda>v. v \<noteq> 0) \<rparr>"

text \<open>
  A cache built as the unit tests build theirs (\<^verbatim>\<open>new ResponseCache({ ttl, maxSize,
  autoCleanup: false })\<close>), holding integers.
\<close>

definition example_cache :: "int \<Rightarrow> int \<Rightarrow> int ResponseCache" where
  "example_cache t m =
     new_ResponseCache \<lparr> ttl_arg = Some t, maxSize_arg = Some m, autoCleanup_arg = Some False,
                         cleanupInterval_arg = None \<rparr>"

section \<open>Properties\<close>

subsection \<open>Key derivation\<close>

lemma sort_keys_eq:
  assumes "distinct (map fst p)" "distinct (map fst q)" "set p = set q"
  shows "sort (map fst p) = sort (map fst q)"
proof -
  have "set (map fst p) = set (map fst q)" using assms(3) by simp
  then show ?thesis
    using assms(1,2) by (intro sorted_distinct_set_unique) simp_all
qed

lemma sortedParams_eq:
  assumes "distinct (map fst p)" "distinct (map fst q)" "set p = set q"
  shows "sortedParams p = sortedParams q"
proof -
  have "map_of p = map_of q" using assms by (simp add: map_of_inject_set)
  then show ?thesis unfolding sortedParams_def using sort_keys_eq [OF assms] by simp
qed

lemma generateKey_nonempty: "generateKey rt operation params \<noteq> []"
  by (simp add: generateKey_def Let_def)

text \<open>
  Claim C9. Two params bags with the same key/value pairs, whatever the order in which
  their keys were inserted, get the same cache key under the same operation name. A
  params bag has each key once. The key is a function of the operation name and the
  bag alone, so it is deterministic.
\<close>

theorem generateKey_order_independent:
  assumes "distinct (map fst p)" "distinct (map fst q)" "set p = set q"
  shows "generateKey rt operation p = generateKey rt operation q"
  unfolding generateKey_def using sortedParams_eq [OF assms] by simp

theorem generateKey_order_independent_witness:
  "distinct (map fst [(''a'', ''1''), (''b'', ''2'')])
   \<and> distinct (map fst [(''b'', ''2''), (''a'', ''1'')])
   \<and> set [(''a'', ''1''), (''b'', ''2'')] = set [(''b'', ''2''), (''a'', ''1'')]
   \<and> generateKey example_runtime ''op'' [(''a'', ''1''), (''b'', ''2'')]
       = generateKey example_runtime ''op'' [(''b'', ''2''), (''a'', ''1'')]"
proof -
  have d1: "distinct (map fst [(''a'', ''1''), (''b'', ''2'')])" by simp
  have d2: "distinct (map fst [(''b'', ''2''), (''a'', ''1'')])" by simp
  have e: "set [(''a'', ''1''), (''b'', ''2'')] = set [(''b'', ''2''), (''a'', ''1'')]"
    by auto
  show ?thesis
    using d1 d2 e generateKey_order_independent [OF d1 d2 e, of example_runtime "''op''"]
    by blast
qed

subsection \<open>Association lists\<close>

lemma length_update:
  "length (AList.update k v al) = (if k \<in> fst ` set al then length al else Suc (length al))"
  by (induction al) auto

lemma length_delete_less:
  assumes "k \<in> fst ` set al"
  shows "length (AList.delete k al) < length al"
proof -
  have "length (removeAll k (map fst al)) < length (map fst al)"
    using assms by (intro length_removeAll_less) simp
  then show ?thesis by (simp add: AList.delete_keys [symmetric])
qed

lemma delete_split:
  assumes "distinct (map fst (pre @ (k, e) # post))"
  shows "AList.delete k (pre @ (k, e) # post) = pre @ post"
proof -
  have "k \<notin> fst ` set pre" "k \<notin> fst ` set post" using assms by auto
  then have "AList.delete k pre = pre" "AList.delete k post = post"
    by (simp_all add: AList.delete_id)
  then show ?thesis by (simp add: AList.delete_eq)
qed

lemma foldl_delete_props:
  "distinct (map fst c) \<Longrightarrow> distinct (map fst (foldl (\<lambda>c k. AList.delete k c) c ks))"
  "fst ` set (foldl (\<lambda>c k. AList.delete k c) c ks) \<subseteq> fst ` set c"
  "length (foldl (\<lambda>c k. AList.delete k c) c ks) \<le> length c"
proof (induction ks arbitrary: c)
  case Nil
  { case 1 then show ?case by simp }
  { case 2 show ?case by simp }
  { case 3 show ?case by simp }
next
  case (Cons k ks)
  { case 1 then show ?case using Cons.IH(1) [of "AList.delete k c"]
      by (simp add: AList.distinct_delete) }
  { case 2 show ?case
      using Cons.IH(2) [of "AList.delete k c"] AList.dom_delete_subset [of k c] by auto }
  { case 3 show ?case
      using Cons.IH(3) [of "AList.delete k c"] AList.length_delete_le [of k c] by simp }
qed

subsection \<open>The scan for the least recently used entry\<close>

text \<open>
  The scan returns the key of the first entry, in iteration order, among those with the
  smallest \<open>lastAccessed\<close>: an entry replaces the candidate only when it is strictly
  older. That entry is \<open>arg_min_list\<close> of the library.
\<close>

lemma lru_scan_Some:
  "lru_scan xs (Some k0, Some t0) =
     (if xs \<noteq> [] \<and> lastAccessed (snd (arg_min_list (\<lambda>p. lastAccessed (snd p)) xs)) < t0
      then (Some (fst (arg_min_list (\<lambda>p. lastAccessed (snd p)) xs)),
            Some (lastAccessed (snd (arg_min_list (\<lambda>p. lastAccessed (snd p)) xs))))
      else (Some k0, Some t0))"
proof (induction xs arbitrary: k0 t0)
  case Nil
  show ?case by simp
next
  case (Cons x xs)
  obtain k e where x: "x = (k, e)" by (cases x)
  show ?case
  proof (cases xs)
    case Nil
    then show ?thesis by (simp add: x)
  next
    case (Cons y ys)
    then show ?thesis
      using Cons.IH [of k "lastAccessed e"] Cons.IH [of k0 t0]
      by (auto simp: x Let_def)
  qed
qed

lemma lru_scan_start:
  assumes "xs \<noteq> []"
  shows "fst (lru_scan xs (None, None)) = Some (fst (arg_min_list (\<lambda>p. lastAccessed (snd p)) xs))"
proof (cases xs)
  case Nil
  with assms show ?thesis by simp
next
  case (Cons x ys)
  obtain k e where x: "x = (k, e)" by (cases x)
  show ?thesis
  proof (cases ys)
    case Nil
    then show ?thesis by (simp add: Cons x)
  next
    case (Cons y zs)
    then show ?thesis
      by (auto simp: \<open>xs = x # ys\<close> x lru_scan_Some Let_def)
  qed
qed

lemma arg_min_list_least:
  "xs \<noteq> [] \<Longrightarrow> y \<in> set xs \<Longrightarrow> f (arg_min_list f xs) \<le> f y"
  by (simp add: f_arg_min_list_f)

lemma arg_min_list_split:
  "xs \<noteq> [] \<Longrightarrow>
     \<exists>pre post. xs = pre @ arg_min_list f xs # post
       \<and> (\<forall>p\<in>set pre. f (arg_min_list f xs) < f p)
       \<and> (\<forall>p\<in>set post. f (arg_min_list f xs) \<le> f p)"
proof (induction f xs rule: arg_min_list.induct)
  case (1 f x)
  have "[x] = [] @ x # [] \<and> (\<forall>p\<in>set []. f x < f p) \<and> (\<forall>p\<in>set []. f x \<le> f p)"
    by simp
  then show ?case by (simp only: arg_min_list.simps) blast
next
  case (2 f x y zs)
  let ?m = "arg_min_list f (y # zs)"
  from "2.IH" obtain pre post where
    s: "y # zs = pre @ ?m # post"
    and a: "\<forall>p\<in>set pre. f ?m < f p" and b: "\<forall>p\<in>set post. f ?m \<le> f p"
    by auto
  show ?case
  proof (cases "f x \<le> f ?m")
    case True
    have "\<forall>p\<in>set (y # zs). f x \<le> f p"
    proof
      fix p assume "p \<in> set (y # zs)"
      then have "f ?m \<le> f p" by (intro arg_min_list_least) simp_all
      with True show "f x \<le> f p" by simp
    qed
    then have "x # y # zs = [] @ x # (y # zs) \<and> (\<forall>p\<in>set []. f x < f p)
                 \<and> (\<forall>p\<in>set (y # zs). f x \<le> f p)"
      by simp
    moreover have "arg_min_list f (x # y # zs) = x" using True by (simp add: Let_def)
    ultimately show ?thesis by metis
  next
    case False
    have "x # y # zs = (x # pre) @ ?m # post" using s by simp
    moreover have "\<forall>p\<in>set (x # pre). f ?m < f p" using a False by auto
    moreover have "arg_min_list f (x # y # zs) = ?m" using False by (simp add: Let_def)
    ultimately show ?thesis using b by metis
  qed
next
  case (3 f)
  then show ?case by simp
qed

subsection \<open>Eviction\<close>

lemma evict_cache:
  assumes "cache s \<noteq> []" "[] \<notin> fst ` set (cache s)"
  shows "evictLeastRecentlyUsed s =
           s\<lparr>cache := AList.delete (fst (arg_min_list (\<lambda>p. lastAccessed (snd p)) (cache s)))
                        (cache s)\<rparr>"
proof -
  have "arg_min_list (\<lambda>p. lastAccessed (snd p)) (cache s) \<in> set (cache s)"
    using assms(1) by (rule arg_min_list_in)
  then have "fst (arg_min_list (\<lambda>p. lastAccessed (snd p)) (cache s)) \<noteq> []"
    using assms(2) by force
  then show ?thesis
    using assms(1) by (simp add: evictLeastRecentlyUsed_def lru_scan_start)
qed

lemma evict_options [simp]: "options (evictLeastRecentlyUsed s) = options s"
  by (simp add: evictLeastRecentlyUsed_def split: option.splits)

lemma evict_cases:
  "evictLeastRecentlyUsed s = s
     \<or> (\<exists>k. evictLeastRecentlyUsed s = s\<lparr>cache := AList.delete k (cache s)\<rparr>)"
  by (auto simp: evictLeastRecentlyUsed_def split: option.splits)

lemma evict_keys_subset: "fst ` set (cache (evictLeastRecentlyUsed s)) \<subseteq> fst ` set (cache s)"
proof -
  have "fst ` set (AList.delete k (cache s)) \<subseteq> fst ` set (cache s)" for k
    by (rule AList.dom_delete_subset)
  then show ?thesis using evict_cases [of s] by (elim disjE exE) simp_all
qed

lemma evict_distinct:
  "distinct (map fst (cache s)) \<Longrightarrow> distinct (map fst (cache (evictLeastRecentlyUsed s)))"
  using evict_cases [of s] by (elim disjE exE) (simp_all add: AList.distinct_delete)

lemma evict_length:
  assumes "cache s \<noteq> []" "[] \<notin> fst ` set (cache s)"
  shows "length (cache (evictLeastRecentlyUsed s)) < length (cache s)"
proof -
  let ?m = "arg_min_list (\<lambda>p. lastAccessed (snd p)) (cache s)"
  have "?m \<in> set (cache s)" using assms(1) by (rule arg_min_list_in)
  then have "fst ?m \<in> fst ` set (cache s)" by (rule imageI)
  then show ?thesis
    by (simp add: evict_cache [OF assms] length_delete_less)
qed

subsection \<open>The invariant is kept by every operation\<close>

lemma set_op_options [simp]: "options (set_op rt s operation params d customTtl now) = options s"
  by (simp add: set_op_def Let_def)

lemma set_op_inv:
  assumes "cache_inv s" "1 \<le> maxSize (options s)"
  shows "cache_inv (set_op rt s operation params d customTtl now)"
proof -
  let ?k = "generateKey rt operation params"
  define s1 where "s1 = (if int (length (cache s)) \<ge> maxSize (options s)
                then evictLeastRecentlyUsed s else s)"
  have d1: "distinct (map fst (cache s1))"
    using assms(1) by (simp add: s1_def cache_inv_def evict_distinct)
  have n1: "[] \<notin> fst ` set (cache s1)"
    using assms(1) evict_keys_subset [of s] by (auto simp: s1_def cache_inv_def)
  have l1: "int (length (cache s1)) < maxSize (options s)"
  proof (cases "int (length (cache s)) \<ge> maxSize (options s)")
    case True
    then have "cache s \<noteq> []" using assms(2) by auto
    then have "length (cache (evictLeastRecentlyUsed s)) < length (cache s)"
      using assms(1) by (intro evict_length) (simp_all add: cache_inv_def)
    then show ?thesis using True assms(1) by (simp add: s1_def cache_inv_def)
  next
    case False
    then show ?thesis by (simp add: s1_def)
  qed
  have c: "cache (set_op rt s operation params d customTtl now)
             = AList.update ?k \<lparr> data = d, timestamp = now,
                  ttl = (case customTtl of None \<Rightarrow> ttl_opt (options s)
                         | Some t \<Rightarrow> if t \<noteq> 0 then t else ttl_opt (options s)),
                  accessCount = 1, lastAccessed = now \<rparr> (cache s1)"
    by (simp add: set_op_def Let_def s1_def)
  show ?thesis
    unfolding cache_inv_def c set_op_options
    using d1 n1 l1 generateKey_nonempty [of rt operation params]
    by (auto simp: AList.distinct_update AList.dom_update length_update)
qed

lemma get_options [simp]: "options (snd (get rt s operation params now)) = options s"
  by (simp add: get_def Let_def split: option.splits)

lemma get_inv:
  assumes "cache_inv s"
  shows "cache_inv (snd (get rt s operation params now))"
proof (cases "map_of (cache s) (generateKey rt operation params)")
  case None
  then show ?thesis using assms by (simp add: get_def)
next
  case (Some e)
  let ?k = "generateKey rt operation params"
  have k: "?k \<in> fst ` set (cache s)"
    using Some by (metis domI dom_map_of_conv_image_fst)
  show ?thesis
  proof (cases "now - timestamp e > ttl e")
    case True
    have c: "cache (snd (get rt s operation params now)) = AList.delete ?k (cache s)"
      using Some True by (simp add: get_def)
    have "length (AList.delete ?k (cache s)) \<le> length (cache s)"
      by (rule AList.length_delete_le)
    moreover have "fst ` set (AList.delete ?k (cache s)) \<subseteq> fst ` set (cache s)"
      by (rule AList.dom_delete_subset)
    ultimately show ?thesis
      using assms unfolding cache_inv_def c get_options
      by (auto simp: AList.distinct_delete)
  next
    case False
    have c: "cache (snd (get rt s operation params now))
               = AList.update ?k (e\<lparr>accessCount := accessCount e + 1, lastAccessed := now\<rparr>)
                   (cache s)"
      using Some False by (simp add: get_def)
    show ?thesis
      using assms k generateKey_nonempty [of rt operation params]
      unfolding cache_inv_def c get_options
      by (simp add: AList.distinct_update AList.dom_update length_update insert_absorb)
  qed
qed

lemma delete_op_inv:
  assumes "cache_inv s"
  shows "cache_inv (snd (delete_op rt s operation params))"
proof -
  let ?k = "generateKey rt operation params"
  have "length (AList.delete ?k (cache s)) \<le> length (cache s)"
    by (rule AList.length_delete_le)
  moreover have "fst ` set (AList.delete ?k (cache s)) \<subseteq> fst ` set (cache s)"
    by (rule AList.dom_delete_subset)
  ultimately show ?thesis
    using assms by (auto simp: cache_inv_def delete_op_def Let_def AList.distinct_delete)
qed

lemma clear_inv: "0 \<le> maxSize (options s) \<Longrightarrow> cache_inv (clear s)"
  by (simp add: cache_inv_def clear_def)

lemma cleanup_inv:
  assumes "cache_inv s"
  shows "cache_inv (cleanup s now)"
proof -
  define ks where
    "ks = map fst (filter (\<lambda>(k, entry). now - timestamp entry > ttl entry) (cache s))"
  have c: "cache (cleanup s now) = foldl (\<lambda>c k. AList.delete k c) (cache s) ks"
    and o: "options (cleanup s now) = options s"
    by (simp_all add: cleanup_def ks_def)
  show ?thesis
    using assms foldl_delete_props [of "cache s" ks]
    unfolding cache_inv_def c o by auto
qed

lemma apply_op_options [simp]: "options (apply_op rt s x) = options s"
  by (cases x) (simp_all add: delete_op_def clear_def cleanup_def Let_def)

lemma apply_op_inv:
  assumes "cache_inv s" "1 \<le> maxSize (options s)"
  shows "cache_inv (apply_op rt s x)"
  using assms
  by (cases x) (simp_all add: get_inv set_op_inv delete_op_inv clear_inv cleanup_inv)

lemma run_ops_inv:
  "cache_inv s \<Longrightarrow> 1 \<le> maxSize (options s)
     \<Longrightarrow> cache_inv (run_ops rt s ops) \<and> options (run_ops rt s ops) = options s"
  unfolding run_ops_def
  by (induction ops arbitrary: s) (simp_all add: apply_op_inv)

lemma new_inv:
  "0 \<le> maxSize (options (new_ResponseCache opts :: 'a ResponseCache))
     \<Longrightarrow> cache_inv (new_ResponseCache opts :: 'a ResponseCache)"
  by (simp add: cache_inv_def new_ResponseCache_def Let_def)

text \<open>
  Claim C5. A cache constructed with \<open>maxSize \<ge> 1\<close> never holds more than \<open>maxSize\<close>
  entries, after any sequence of get, set, delete and clear calls (and sweeps), run at
  any times: the bound holds after every operation of the sequence, so after every set.
\<close>

theorem size_never_exceeds_maxSize:
  fixes rt :: "('p, 'a) runtime" and ops :: "('p, 'a) cache_op list"
  assumes "1 \<le> maxSize (options (new_ResponseCache opts :: 'a ResponseCache))"
  shows "int (length (cache (run_ops rt (new_ResponseCache opts) ops)))
           \<le> maxSize (options (new_ResponseCache opts :: 'a ResponseCache))"
proof -
  have "cache_inv (new_ResponseCache opts :: 'a ResponseCache)"
    using assms by (intro new_inv) simp
  from run_ops_inv [OF this assms, of rt ops]
  have i: "cache_inv (run_ops rt (new_ResponseCache opts) ops)"
    and o: "options (run_ops rt (new_ResponseCache opts) ops)
           = options (new_ResponseCache opts :: 'a ResponseCache)"
    by simp_all
  have "int (length (cache (run_ops rt (new_ResponseCache opts) ops)))
          \<le> maxSize (options (run_ops rt (new_ResponseCache opts) ops))"
    using i by (simp add: cache_inv_def)
  then show ?thesis unfolding o .
qed

theorem size_never_exceeds_maxSize_witness:
  "1 \<le> maxSize (options (example_cache 1000 2))
   \<and> int (length (cache (run_ops example_runtime (example_cache 1000 2)
        [Set ''k1'' [] 1 None 1, Set ''k2'' [] 2 None 2, Get ''k1'' [] 3,
         Set ''k3'' [] 3 None 4, Delete ''k1'' [], Set ''k4'' [] 4 None 5])))
       \<le> maxSize (options (example_cache 1000 2))"
proof -
  have h: "1 \<le> maxSize (options (example_cache 1000 2))"
    by (simp add: example_cache_def new_ResponseCache_def)
  show ?thesis
    using h size_never_exceeds_maxSize [OF h [unfolded example_cache_def], of example_runtime
      "[Set ''k1'' [] 1 None 1, Set ''k2'' [] 2 None 2, Get ''k1'' [] 3,
        Set ''k3'' [] 3 None 4, Delete ''k1'' [], Set ''k4'' [] 4 None 5]"]
    by (simp add: example_cache_def)
qed

subsection \<open>Lookup and expiry\<close>

lemma example_key_k1: "generateKey example_runtime ''k1'' [] = ''k1_k1:''"
  by (simp add: generateKey_def example_runtime_def sortedParams_def)

lemma example_key_nil:
  "generateKey example_runtime operation [] = operation @ ''_'' @ take 16 (operation @ '':'')"
  by (simp add: generateKey_def example_runtime_def sortedParams_def)

text \<open>
  Claim C7. When the store holds an entry for the key and the entry's age exceeds its
  ttl (\<open>now - timestamp > ttl\<close>), \<open>get\<close> reports a miss, does not return the entry's
  value, and removes the entry from the store in the same call; nothing else in the
  store changes. When the age is at most the ttl, \<open>get\<close> returns the entry's value.
\<close>

theorem get_lazy_expiry:
  assumes "map_of (cache s) (generateKey rt operation params) = Some e"
  shows "(ttl e < now - timestamp e \<longrightarrow>
            fst (get rt s operation params now) = None
          \<and> snd (get rt s operation params now)
              = s\<lparr>cache := AList.delete (generateKey rt operation params) (cache s)\<rparr>
          \<and> map_of (cache (snd (get rt s operation params now)))
              (generateKey rt operation params) = None
          \<and> generateKey rt operation params
              \<notin> fst ` set (cache (snd (get rt s operation params now))))
       \<and> (now - timestamp e \<le> ttl e \<longrightarrow>
            fst (get rt s operation params now) = Some (data e))"
  using assms
  by (simp add: get_def AList.delete_conv' AList.delete_notin_dom)

theorem get_lazy_expiry_witness:
  "get example_runtime (set_op example_runtime (example_cache 100 3) ''k1'' [] 7 None 0)
      ''k1'' [] 150
     = (None, example_cache 100 3)
   \<and> fst (get example_runtime (set_op example_runtime (example_cache 100 3) ''k1'' [] 7 None 0)
      ''k1'' [] 100) = Some 7"
proof -
  let ?s = "set_op example_runtime (example_cache 100 3) ''k1'' [] 7 None 0"
  let ?e = "\<lparr> data = 7 :: int, timestamp = 0, ttl = 100, accessCount = 1, lastAccessed = 0 \<rparr>"
  have c: "cache ?s = [(''k1_k1:'', ?e)]"
    by (simp add: set_op_def example_cache_def new_ResponseCache_def example_key_k1)
  have m: "map_of (cache ?s) (generateKey example_runtime ''k1'' []) = Some ?e"
    by (simp add: c example_key_k1)
  have s: "?s\<lparr>cache := []\<rparr> = example_cache 100 3"
    by (simp add: set_op_def example_cache_def new_ResponseCache_def)
  show ?thesis
    using get_lazy_expiry [OF m, of 150] get_lazy_expiry [OF m, of 100]
    by (simp add: c s example_key_k1 prod_eq_iff)
qed

subsection \<open>Storing\<close>

text \<open>
  What \<open>set\<close> stores under the key, for a fresh insert and for an overwrite alike: the
  ttl is the override when it is truthy (given and not zero), the default otherwise.
\<close>

lemma set_op_entry:
  "map_of (cache (set_op rt s operation params d customTtl now))
          (generateKey rt operation params)
     = Some \<lparr> data = d, timestamp = now,
              ttl = (case customTtl of None \<Rightarrow> ttl_opt (options s)
                     | Some t \<Rightarrow> if t = 0 then ttl_opt (options s) else t),
              accessCount = 1, lastAccessed = now \<rparr>"
  by (simp add: set_op_def Let_def AList.update_conv' split: option.splits)

text \<open>
  Claim C8 at its failing input. On a cache whose default ttl is 1000, a set with the
  override 0 stores the ttl 1000: the override is given and is not used. The other
  fields are as the claim says (\<open>timestamp = now\<close>, \<open>accessCount = 1\<close>,
  \<open>lastAccessed = now\<close>). Only zero is lost: the override \<open>-5\<close> is stored as given, and a
  default of 0, which the constructor keeps, is stored by a set without override.
\<close>

theorem set_op_zero_override_uses_default:
  "map_of (cache (set_op example_runtime (example_cache 1000 3) ''k1'' [] 7 (Some 0) 5))
          (generateKey example_runtime ''k1'' [])
     = Some \<lparr> data = 7, timestamp = 5, ttl = 1000, accessCount = 1, lastAccessed = 5 \<rparr>
   \<and> map_of (cache (set_op example_runtime (example_cache 1000 3) ''k1'' [] 7 (Some (- 5)) 5))
          (generateKey example_runtime ''k1'' [])
     = Some \<lparr> data = 7, timestamp = 5, ttl = - 5, accessCount = 1, lastAccessed = 5 \<rparr>
   \<and> map_of (cache (set_op example_runtime (example_cache 0 3) ''k1'' [] 7 None 5))
          (generateKey example_runtime ''k1'' [])
     = Some \<lparr> data = 7, timestamp = 5, ttl = 0, accessCount = 1, lastAccessed = 5 \<rparr>"
  by (simp add: set_op_def example_cache_def new_ResponseCache_def evictLeastRecentlyUsed_def
        example_key_k1)

subsection \<open>Pattern invalidation\<close>

lemma foldl_count:
  "foldl (\<lambda>n x. if P x then n + 1 else n) (a::nat) xs = a + length (filter P xs)"
  by (induction xs arbitrary: a) simp_all

lemma takeWhile_sublist: "sublist (takeWhile P xs) xs"
  by (metis prefix_imp_sublist takeWhile_is_prefix)

text \<open>
  Claim C10. \<open>invalidateCache\<close> returns the cache exactly as it was given, and its
  result is the number of keys whose part before the first underscore equals the
  pattern.
\<close>

theorem invalidateCache_readonly:
  "invalidateCache s pattern now =
     (length (filter (\<lambda>k. takeWhile (\<lambda>c. c \<noteq> CHR ''_'') k = pattern) (map fst (cache s))), s)"
proof -
  have cond: "(if sublist pattern k
            then (let operation = takeWhile (\<lambda>c. c \<noteq> CHR ''_'') k
                  in if operation = pattern then n + 1 else n)
            else n)
          = (if takeWhile (\<lambda>c. c \<noteq> CHR ''_'') k = pattern then n + 1 else n)"
    for k and n :: nat
    using takeWhile_sublist [of "\<lambda>c. c \<noteq> CHR ''_''" k] by (auto simp: Let_def)
  show ?thesis
    by (simp add: invalidateCache_def getStats_def Let_def cond foldl_count filter_map o_def
          case_prod_unfold)
qed

subsection \<open>Construction and misses\<close>

lemma example_no_throw: "\<not> JSON_throws example_runtime ps"
  by (simp add: example_runtime_def)

text \<open>
  Claim C3, as amended. Constructing a cache with invalid parameters does not throw:
  for every options object, also one with a non-positive \<open>maxSize\<close> or ttl, the
  constructor completes normally with an empty cache whose options are the given
  values (the defaults where a field is absent). No get, set, delete or clear throws for
  a normal miss: with params that \<^verbatim>\<open>JSON.stringify\<close> serialises, \<open>get\<close>, \<open>set\<close> and
  \<open>delete\<close> complete normally on every store; on a store without the key, \<open>get\<close> returns
  \<open>undefined\<close> and \<open>delete\<close> returns \<open>false\<close>, both leaving the store as it was, and \<open>set\<close>
  leaves an entry under the key; \<open>clear\<close> completes normally with the empty store.
\<close>

theorem construct_never_fails:
  "(\<exists>s0. (construct opts :: error + 'a ResponseCache) = Inr s0
         \<and> cache s0 = []
         \<and> ttl_opt (options s0) = (case ttl_arg opts of None \<Rightarrow> 300000 | Some t \<Rightarrow> t)
         \<and> maxSize (options s0) = (case maxSize_arg opts of None \<Rightarrow> 100 | Some m \<Rightarrow> m))
   \<and> (\<not> JSON_throws rt (sortedParams params) \<longrightarrow>
         (\<exists>r s'. get_call rt s operation params now = Inr (r, s'))
       \<and> (\<exists>b s'. delete_call rt s operation params = Inr (b, s'))
       \<and> (\<exists>s'. set_call rt s operation params d customTtl now = Inr s'
                \<and> map_of (cache s') (generateKey rt operation params) \<noteq> None)
       \<and> (map_of (cache s) (generateKey rt operation params) = None \<longrightarrow>
             get_call rt s operation params now = Inr (None, s)
           \<and> delete_call rt s operation params = Inr (False, s)))
   \<and> clear_call s = Inr (s\<lparr>cache := []\<rparr>)"
proof -
  have 1: "\<exists>s0. (construct opts :: error + 'a ResponseCache) = Inr s0
         \<and> cache s0 = []
         \<and> ttl_opt (options s0) = (case ttl_arg opts of None \<Rightarrow> 300000 | Some t \<Rightarrow> t)
         \<and> maxSize (options s0) = (case maxSize_arg opts of None \<Rightarrow> 100 | Some m \<Rightarrow> m)"
    by (simp add: construct_def new_ResponseCache_def Let_def split: option.splits)
  have 2: "clear_call s = Inr (s\<lparr>cache := []\<rparr>)"
    by (simp add: clear_call_def clear_def)
  have 3: "(\<exists>r s'. get_call rt s operation params now = Inr (r, s'))
       \<and> (\<exists>b s'. delete_call rt s operation params = Inr (b, s'))
       \<and> (\<exists>s'. set_call rt s operation params d customTtl now = Inr s'
                \<and> map_of (cache s') (generateKey rt operation params) \<noteq> None)
       \<and> (map_of (cache s) (generateKey rt operation params) = None \<longrightarrow>
             get_call rt s operation params now = Inr (None, s)
           \<and> delete_call rt s operation params = Inr (False, s))"
    if n: "\<not> JSON_throws rt (sortedParams params)"
  proof -
    have g: "get_call rt s operation params now = Inr (get rt s operation params now)"
      and dl: "delete_call rt s operation params = Inr (delete_op rt s operation params)"
      and st: "set_call rt s operation params d customTtl now
                 = Inr (set_op rt s operation params d customTtl now)"
      using n by (simp_all add: get_call_def delete_call_def set_call_def generateKey_call_def)
    have a: "\<exists>r s'. get_call rt s operation params now = Inr (r, s')"
      unfolding g by (metis surj_pair)
    have b: "\<exists>b s'. delete_call rt s operation params = Inr (b, s')"
      unfolding dl by (metis surj_pair)
    have c: "\<exists>s'. set_call rt s operation params d customTtl now = Inr s'
                \<and> map_of (cache s') (generateKey rt operation params) \<noteq> None"
      unfolding st by (simp add: set_op_entry)
    have m: "map_of (cache s) (generateKey rt operation params) = None \<Longrightarrow>
          generateKey rt operation params \<notin> fst ` set (cache s)"
      by (simp add: map_of_eq_None_iff)
    have e: "map_of (cache s) (generateKey rt operation params) = None \<longrightarrow>
             get_call rt s operation params now = Inr (None, s)
           \<and> delete_call rt s operation params = Inr (False, s)"
      unfolding g dl using m by (auto simp: get_def delete_op_def)
    show ?thesis using a b c e by blast
  qed
  show ?thesis using 1 2 3 by blast
qed

theorem construct_never_fails_witness:
  "\<not> JSON_throws example_runtime (sortedParams [])
   \<and> map_of (cache (set_op example_runtime (example_cache 1000 3) ''k1'' [] 7 None 0))
        (generateKey example_runtime ''k2'' []) = None
   \<and> (\<exists>s0. (construct \<lparr> ttl_arg = Some 0, maxSize_arg = Some (- 5), autoCleanup_arg = None,
                          cleanupInterval_arg = None \<rparr> :: error + int ResponseCache) = Inr s0
          \<and> cache s0 = [] \<and> ttl_opt (options s0) = 0 \<and> maxSize (options s0) = - 5)
   \<and> get_call example_runtime
        (set_op example_runtime (example_cache 1000 3) ''k1'' [] 7 None 0) ''k2'' [] 5
       = Inr (None, set_op example_runtime (example_cache 1000 3) ''k1'' [] 7 None 0)
   \<and> delete_call example_runtime
        (set_op example_runtime (example_cache 1000 3) ''k1'' [] 7 None 0) ''k2'' []
       = Inr (False, set_op example_runtime (example_cache 1000 3) ''k1'' [] 7 None 0)
   \<and> (\<exists>s'. set_call example_runtime
               (set_op example_runtime (example_cache 1000 3) ''k1'' [] 7 None 0)
               ''k2'' [] 9 None 5 = Inr s'
          \<and> map_of (cache s') (generateKey example_runtime ''k2'' []) \<noteq> None)
   \<and> clear_call (set_op example_runtime (example_cache 1000 3) ''k1'' [] 7 None 0)
       = Inr (example_cache 1000 3)"
proof -
  let ?S = "set_op example_runtime (example_cache 1000 3) ''k1'' [] 7 None 0"
  let ?o = "\<lparr> ttl_arg = Some 0, maxSize_arg = Some (- 5), autoCleanup_arg = None,
              cleanupInterval_arg = None \<rparr>"
  have n: "\<not> JSON_throws example_runtime (sortedParams [])"
    by (rule example_no_throw)
  have c: "cache ?S = [(''k1_k1:'', \<lparr> data = 7, timestamp = 0, ttl = 1000, accessCount = 1,
                                     lastAccessed = 0 \<rparr>)]"
    by (simp add: set_op_def example_cache_def new_ResponseCache_def example_key_k1)
  have m: "map_of (cache ?S) (generateKey example_runtime ''k2'' []) = None"
    by (simp add: c example_key_nil)
  have e: "?S\<lparr>cache := []\<rparr> = example_cache 1000 3"
    by (simp add: set_op_def example_cache_def new_ResponseCache_def)
  note T = construct_never_fails [where opts = ?o and rt = example_runtime and s = ?S
      and operation = "''k2''" and params = "[]" and now = 5 and d = 9 and customTtl = None]
  have 1: "\<exists>s0. (construct ?o :: error + int ResponseCache) = Inr s0
          \<and> cache s0 = [] \<and> ttl_opt (options s0) = 0 \<and> maxSize (options s0) = - 5"
    using T [THEN conjunct1] by simp
  have 2: "clear_call ?S = Inr (example_cache 1000 3)"
    using T [THEN conjunct2, THEN conjunct2] by (simp add: e)
  note U = T [THEN conjunct2, THEN conjunct1, THEN mp, OF n]
  have 3: "get_call example_runtime ?S ''k2'' [] 5 = Inr (None, ?S)
           \<and> delete_call example_runtime ?S ''k2'' [] = Inr (False, ?S)"
    using U m by blast
  have 4: "\<exists>s'. set_call example_runtime ?S ''k2'' [] 9 None 5 = Inr s'
          \<and> map_of (cache s') (generateKey example_runtime ''k2'' []) \<noteq> None"
    using U by blast
  show ?thesis using n m 1 2 3 4 by blast
qed

text \<open>
  The claim as stated (invalid parameters throw at construction) fails: a cache is
  constructed with \<open>maxSize = 0\<close> and \<open>ttl = -1\<close>.
\<close>

theorem construct_invalid_counterexample:
  "(construct \<lparr> ttl_arg = Some (- 1), maxSize_arg = Some 0, autoCleanup_arg = Some False,
                cleanupInterval_arg = None \<rparr> :: error + int ResponseCache)
     = Inr \<lparr> cache = [], cleanupTimer = False,
             options = \<lparr> ttl_opt = - 1, maxSize = 0, autoCleanup = False,
                         cleanupInterval = 60000 \<rparr> \<rparr>"
  by (simp add: construct_def new_ResponseCache_def)

subsection \<open>The memoizer\<close>



lemma example_truthy: "to_boolean example_runtime v \<longleftrightarrow> v \<noteq> 0"
  by (simp add: example_runtime_def)

text \<open>A live entry with a truthy value is returned and the handler is not called.\<close>

lemma withCache_hit:
  assumes "map_of (cache s) (generateKey rt operation params) = Some e"
      and "t_get - timestamp e \<le> ttl e" and "to_boolean rt (data e)"
  shows "withCache rt s operation handler params customTtl t_get t_set w
           = (Inr (data e), snd (get rt s operation params t_get), w)"
  using assms by (simp add: withCache_def get_def)




text \<open>
  Claim C1 at its failing input. The producer resolves to \<open>0\<close>. The first call stores
  it; the second call, one millisecond later, finds the live entry, and still runs the
  producer: the call counter is 2 after two calls. With the value \<open>5\<close> it is 1.
\<close>

theorem withCache_falsy_value_reinvokes:
  "(let h = (\<lambda>n::nat. (Inr 0 :: string + int, Suc n));
        (r1, s1, w1) = withCache example_runtime (example_cache 1000 3) ''k1'' h [] None 0 0 0;
        (r2, s2, w2) = withCache example_runtime s1 ''k1'' h [] None 1 1 w1
    in (r1, fst (get example_runtime s1 ''k1'' [] 1), r2, w2)) = (Inr 0, Some 0, Inr 0, 2)
   \<and> (let h = (\<lambda>n::nat. (Inr 5 :: string + int, Suc n));
        (r1, s1, w1) = withCache example_runtime (example_cache 1000 3) ''k1'' h [] None 0 0 0;
        (r2, s2, w2) = withCache example_runtime s1 ''k1'' h [] None 1 1 w1
    in (r1, fst (get example_runtime s1 ''k1'' [] 1), r2, w2)) = (Inr 5, Some 5, Inr 5, 1)"
  by (simp add: withCache_def get_def set_op_def example_cache_def new_ResponseCache_def
        example_key_k1 example_truthy)

subsection \<open>Which entry a set evicts\<close>

lemma set_op_evicts_first_least_recent:
  assumes "distinct (map fst (cache s))" "[] \<notin> fst ` set (cache s)" "cache s \<noteq> []"
      and "maxSize (options s) \<le> int (length (cache s))"
  shows "\<exists>pre k e post.
           cache s = pre @ (k, e) # post
         \<and> (\<forall>p\<in>set pre. lastAccessed e < lastAccessed (snd p))
         \<and> (\<forall>p\<in>set post. lastAccessed e \<le> lastAccessed (snd p))
         \<and> cache (evictLeastRecentlyUsed s) = pre @ post
         \<and> cache (set_op rt s operation params d customTtl now)
             = AList.update (generateKey rt operation params)
                 \<lparr> data = d, timestamp = now,
                   ttl = (case customTtl of None \<Rightarrow> ttl_opt (options s)
                          | Some t \<Rightarrow> if t = 0 then ttl_opt (options s) else t),
                   accessCount = 1, lastAccessed = now \<rparr>
                 (pre @ post)"
proof -
  let ?f = "\<lambda>p :: string \<times> 'a CacheEntry. lastAccessed (snd p)"
  let ?m = "arg_min_list ?f (cache s)"
  from arg_min_list_split [OF assms(3), of ?f] obtain pre post where
    s: "cache s = pre @ ?m # post"
    and a: "\<forall>p\<in>set pre. ?f ?m < ?f p" and b: "\<forall>p\<in>set post. ?f ?m \<le> ?f p"
    by blast
  have s': "cache s = pre @ (fst ?m, snd ?m) # post" using s by simp
  have "distinct (map fst (pre @ (fst ?m, snd ?m) # post))"
    using assms(1) s' by simp
  then have del: "AList.delete (fst ?m) (cache s) = pre @ post"
    using delete_split [of pre "fst ?m" "snd ?m" post] s' by simp
  have ev: "cache (evictLeastRecentlyUsed s) = pre @ post"
    by (simp add: evict_cache [OF assms(3) assms(2)] del)
  have st: "cache (set_op rt s operation params d customTtl now)
             = AList.update (generateKey rt operation params)
                 \<lparr> data = d, timestamp = now,
                   ttl = (case customTtl of None \<Rightarrow> ttl_opt (options s)
                          | Some t \<Rightarrow> if t = 0 then ttl_opt (options s) else t),
                   accessCount = 1, lastAccessed = now \<rparr>
                 (pre @ post)"
    using assms(4) by (simp add: set_op_def Let_def ev split: option.splits)
  show ?thesis
    using s' a b ev st by blast
qed

text \<open>
  The scenario of the unit test: a cache of size 3, three inserts, a read of the first
  key, a fourth insert. When the read is strictly later than the second insert, the
  second key is the one evicted.
\<close>

lemma lru_scenario:
  fixes rt :: "('p, 'a) runtime"
  assumes m: "maxSize_arg opts = Some 3"
      and k: "distinct [generateKey rt o1 p1, generateKey rt o2 p2, generateKey rt o3 p3,
                        generateKey rt o4 p4]"
      and t: "t2 \<le> t3" "t2 < t4"
      and l: "t4 - t1 \<le> ttl_opt (options (new_ResponseCache opts :: 'a ResponseCache))"
  shows "cache (run_ops rt (new_ResponseCache opts)
           [Set o1 p1 v1 None t1, Set o2 p2 v2 None t2, Set o3 p3 v3 None t3,
            Get o1 p1 t4, Set o4 p4 v4 None t5])
         = [(generateKey rt o1 p1,
             \<lparr> data = v1, timestamp = t1,
               ttl = ttl_opt (options (new_ResponseCache opts :: 'a ResponseCache)),
               accessCount = 2, lastAccessed = t4 \<rparr>),
            (generateKey rt o3 p3,
             \<lparr> data = v3, timestamp = t3,
               ttl = ttl_opt (options (new_ResponseCache opts :: 'a ResponseCache)),
               accessCount = 1, lastAccessed = t3 \<rparr>),
            (generateKey rt o4 p4,
             \<lparr> data = v4, timestamp = t5,
               ttl = ttl_opt (options (new_ResponseCache opts :: 'a ResponseCache)),
               accessCount = 1, lastAccessed = t5 \<rparr>)]"
proof -
  define k1 where "k1 = generateKey rt o1 p1"
  define k2 where "k2 = generateKey rt o2 p2"
  define k3 where "k3 = generateKey rt o3 p3"
  define k4 where "k4 = generateKey rt o4 p4"
  have ne: "k1 \<noteq> []" "k2 \<noteq> []" "k3 \<noteq> []" "k4 \<noteq> []"
    by (simp_all add: k1_def k2_def k3_def k4_def generateKey_nonempty)
  have d: "k1 \<noteq> k2" "k1 \<noteq> k3" "k1 \<noteq> k4" "k2 \<noteq> k3" "k2 \<noteq> k4" "k3 \<noteq> k4"
    using k by (simp_all add: k1_def k2_def k3_def k4_def)
  define T where "T = ttl_opt (options (new_ResponseCache opts :: 'a ResponseCache))"
  define s0 :: "'a ResponseCache" where "s0 = new_ResponseCache opts"
  have s0: "cache s0 = []" "maxSize (options s0) = 3" "ttl_opt (options s0) = T"
    using m by (simp_all add: s0_def T_def new_ResponseCache_def Let_def)
  define e1 where
    "e1 = \<lparr> data = v1, timestamp = t1, ttl = T, accessCount = 1, lastAccessed = t1 \<rparr>"
  define e2 where
    "e2 = \<lparr> data = v2, timestamp = t2, ttl = T, accessCount = 1, lastAccessed = t2 \<rparr>"
  define e3 where
    "e3 = \<lparr> data = v3, timestamp = t3, ttl = T, accessCount = 1, lastAccessed = t3 \<rparr>"
  define s1 where "s1 = set_op rt s0 o1 p1 v1 None t1"
  have s1: "cache s1 = [(k1, e1)]" "options s1 = options s0"
    by (simp_all add: s1_def set_op_def Let_def s0 k1_def e1_def)
  define s2 where "s2 = set_op rt s1 o2 p2 v2 None t2"
  have s2: "cache s2 = [(k1, e1), (k2, e2)]" "options s2 = options s0"
    using d by (simp_all add: s2_def set_op_def Let_def s1 s0 k2_def [symmetric] e2_def)
  define s3 where "s3 = set_op rt s2 o3 p3 v3 None t3"
  have s3: "cache s3 = [(k1, e1), (k2, e2), (k3, e3)]" "options s3 = options s0"
    using d by (simp_all add: s3_def set_op_def Let_def s2 s0 k3_def [symmetric] e3_def)
  define s4 where "s4 = snd (get rt s3 o1 p1 t4)"
  have s4: "cache s4 = [(k1, e1\<lparr>accessCount := 2, lastAccessed := t4\<rparr>), (k2, e2), (k3, e3)]"
    "options s4 = options s0"
    using d l
    by (simp_all add: s4_def get_def Let_def s3 k1_def [symmetric] T_def [symmetric] e1_def)
  have ev: "cache (evictLeastRecentlyUsed s4)
              = [(k1, e1\<lparr>accessCount := 2, lastAccessed := t4\<rparr>), (k3, e3)]"
    "options (evictLeastRecentlyUsed s4) = options s0"
    using d t ne by (simp_all add: evictLeastRecentlyUsed_def s4 e1_def e2_def e3_def)
  define s5 where "s5 = set_op rt s4 o4 p4 v4 None t5"
  have s5: "cache s5 = [(k1, e1\<lparr>accessCount := 2, lastAccessed := t4\<rparr>), (k3, e3),
                        (k4, \<lparr> data = v4, timestamp = t5, ttl = T, accessCount = 1,
                               lastAccessed = t5 \<rparr>)]"
    using d by (simp add: s5_def set_op_def Let_def s4 ev s0 k4_def [symmetric])
  have "run_ops rt (new_ResponseCache opts)
           [Set o1 p1 v1 None t1, Set o2 p2 v2 None t2, Set o3 p3 v3 None t3,
            Get o1 p1 t4, Set o4 p4 v4 None t5] = s5"
    by (simp add: run_ops_def s5_def s4_def s3_def s2_def s1_def s0_def)
  then show ?thesis
    by (simp add: s5 k1_def k3_def k4_def T_def e1_def e3_def)
qed

text \<open>
  Claim C4, as amended. When a set finds a non-empty store at or over its cap, exactly
  one entry is taken out before the new entry is written: the first entry, in insertion
  order, among those with the smallest \<open>lastAccessed\<close> of all entries in the store,
  expired or not. The store after the eviction is the store before it without that
  entry, and the new entry is written into it.

  In the scenario with \<open>maxSize = 3\<close> (insert \<open>k1\<close>, \<open>k2\<close>, \<open>k3\<close> at \<open>t1\<close>, \<open>t2 \<le> t3\<close>; read \<open>k1\<close>
  at \<open>t4\<close>, within its ttl and strictly later than \<open>t2\<close>; insert \<open>k4\<close>), the keys left are
  \<open>k1\<close>, \<open>k3\<close>, \<open>k4\<close>: \<open>k2\<close> is evicted and a lookup of it misses, and \<open>k1\<close> and \<open>k4\<close> are
  returned by a lookup within their ttl.
\<close>

theorem set_evicts_first_least_recently_accessed:
  fixes rt :: "('p, 'a) runtime" and s :: "'a ResponseCache"
  shows
  "(distinct (map fst (cache s)) \<and> [] \<notin> fst ` set (cache s) \<and> cache s \<noteq> []
      \<and> maxSize (options s) \<le> int (length (cache s)) \<longrightarrow>
      (\<exists>pre k e post.
           cache s = pre @ (k, e) # post
         \<and> (\<forall>p\<in>set pre. lastAccessed e < lastAccessed (snd p))
         \<and> (\<forall>p\<in>set post. lastAccessed e \<le> lastAccessed (snd p))
         \<and> cache (evictLeastRecentlyUsed s) = pre @ post
         \<and> cache (set_op rt s operation params d customTtl now)
             = AList.update (generateKey rt operation params)
                 \<lparr> data = d, timestamp = now,
                   ttl = (case customTtl of None \<Rightarrow> ttl_opt (options s)
                          | Some t \<Rightarrow> if t = 0 then ttl_opt (options s) else t),
                   accessCount = 1, lastAccessed = now \<rparr>
                 (pre @ post)))
   \<and> (maxSize_arg opts = Some 3
      \<and> distinct [generateKey rt o1 p1, generateKey rt o2 p2, generateKey rt o3 p3,
                   generateKey rt o4 p4]
      \<and> t2 \<le> t3 \<and> t2 < t4
      \<and> t4 - t1 \<le> ttl_opt (options (new_ResponseCache opts :: 'a ResponseCache)) \<longrightarrow>
      map fst (cache (run_ops rt (new_ResponseCache opts)
           [Set o1 p1 v1 None t1, Set o2 p2 v2 None t2, Set o3 p3 v3 None t3,
            Get o1 p1 t4, Set o4 p4 v4 None t5]))
        = [generateKey rt o1 p1, generateKey rt o3 p3, generateKey rt o4 p4]
      \<and> fst (get rt (run_ops rt (new_ResponseCache opts)
           [Set o1 p1 v1 None t1, Set o2 p2 v2 None t2, Set o3 p3 v3 None t3,
            Get o1 p1 t4, Set o4 p4 v4 None t5]) o2 p2 t6) = None
      \<and> (t6 - t1 \<le> ttl_opt (options (new_ResponseCache opts :: 'a ResponseCache)) \<longrightarrow>
          fst (get rt (run_ops rt (new_ResponseCache opts)
           [Set o1 p1 v1 None t1, Set o2 p2 v2 None t2, Set o3 p3 v3 None t3,
            Get o1 p1 t4, Set o4 p4 v4 None t5]) o1 p1 t6) = Some v1)
      \<and> (t6 - t5 \<le> ttl_opt (options (new_ResponseCache opts :: 'a ResponseCache)) \<longrightarrow>
          fst (get rt (run_ops rt (new_ResponseCache opts)
           [Set o1 p1 v1 None t1, Set o2 p2 v2 None t2, Set o3 p3 v3 None t3,
            Get o1 p1 t4, Set o4 p4 v4 None t5]) o4 p4 t6) = Some v4))"
  (is "(?A \<longrightarrow> ?B) \<and> (?C \<longrightarrow> ?D)")
proof (rule conjI; rule impI)
  assume ?A
  then show ?B
    using set_op_evicts_first_least_recent [of s rt operation params d customTtl now] by blast
next
  assume c: ?C
  let ?R = "run_ops rt (new_ResponseCache opts)
           [Set o1 p1 v1 None t1, Set o2 p2 v2 None t2, Set o3 p3 v3 None t3,
            Get o1 p1 t4, Set o4 p4 v4 None t5]"
  from c have k: "distinct [generateKey rt o1 p1, generateKey rt o2 p2, generateKey rt o3 p3,
                   generateKey rt o4 p4]" by blast
  from c have R: "cache ?R = [(generateKey rt o1 p1,
             \<lparr> data = v1, timestamp = t1,
               ttl = ttl_opt (options (new_ResponseCache opts :: 'a ResponseCache)),
               accessCount = 2, lastAccessed = t4 \<rparr>),
            (generateKey rt o3 p3,
             \<lparr> data = v3, timestamp = t3,
               ttl = ttl_opt (options (new_ResponseCache opts :: 'a ResponseCache)),
               accessCount = 1, lastAccessed = t3 \<rparr>),
            (generateKey rt o4 p4,
             \<lparr> data = v4, timestamp = t5,
               ttl = ttl_opt (options (new_ResponseCache opts :: 'a ResponseCache)),
               accessCount = 1, lastAccessed = t5 \<rparr>)]"
    by (intro lru_scenario) blast+
  show ?D
    using k by (auto simp: R get_def Let_def)
qed


theorem set_evicts_first_least_recently_accessed_witness:
  "distinct (map fst (cache (run_ops example_runtime (example_cache 1000 3)
       [Set ''k1'' [] 1 None 1, Set ''k2'' [] 2 None 2, Set ''k3'' [] 3 None 3])))
   \<and> [] \<notin> fst ` set (cache (run_ops example_runtime (example_cache 1000 3)
       [Set ''k1'' [] 1 None 1, Set ''k2'' [] 2 None 2, Set ''k3'' [] 3 None 3]))
   \<and> maxSize (options (run_ops example_runtime (example_cache 1000 3)
       [Set ''k1'' [] 1 None 1, Set ''k2'' [] 2 None 2, Set ''k3'' [] 3 None 3]))
       \<le> int (length (cache (run_ops example_runtime (example_cache 1000 3)
       [Set ''k1'' [] 1 None 1, Set ''k2'' [] 2 None 2, Set ''k3'' [] 3 None 3])))
   \<and> (\<exists>pre k e post.
         cache (run_ops example_runtime (example_cache 1000 3)
           [Set ''k1'' [] 1 None 1, Set ''k2'' [] 2 None 2, Set ''k3'' [] 3 None 3])
           = pre @ (k, e) # post
       \<and> cache (evictLeastRecentlyUsed (run_ops example_runtime (example_cache 1000 3)
           [Set ''k1'' [] 1 None 1, Set ''k2'' [] 2 None 2, Set ''k3'' [] 3 None 3]))
           = pre @ post)
   \<and> distinct [generateKey example_runtime ''k1'' [], generateKey example_runtime ''k2'' [],
                generateKey example_runtime ''k3'' [], generateKey example_runtime ''k4'' []]
   \<and> map fst (cache (run_ops example_runtime (example_cache 1000 3)
        [Set ''k1'' [] 1 None 1, Set ''k2'' [] 2 None 2, Set ''k3'' [] 3 None 3,
         Get ''k1'' [] 4, Set ''k4'' [] 4 None 5]))
       = [generateKey example_runtime ''k1'' [], generateKey example_runtime ''k3'' [],
          generateKey example_runtime ''k4'' []]
   \<and> fst (get example_runtime (run_ops example_runtime (example_cache 1000 3)
        [Set ''k1'' [] 1 None 1, Set ''k2'' [] 2 None 2, Set ''k3'' [] 3 None 3,
         Get ''k1'' [] 4, Set ''k4'' [] 4 None 5]) ''k1'' [] 6) = Some 1
   \<and> fst (get example_runtime (run_ops example_runtime (example_cache 1000 3)
        [Set ''k1'' [] 1 None 1, Set ''k2'' [] 2 None 2, Set ''k3'' [] 3 None 3,
         Get ''k1'' [] 4, Set ''k4'' [] 4 None 5]) ''k2'' [] 6) = None
   \<and> fst (get example_runtime (run_ops example_runtime (example_cache 1000 3)
        [Set ''k1'' [] 1 None 1, Set ''k2'' [] 2 None 2, Set ''k3'' [] 3 None 3,
         Get ''k1'' [] 4, Set ''k4'' [] 4 None 5]) ''k4'' [] 6) = Some 4"
proof -
  let ?o = "\<lparr> ttl_arg = Some 1000, maxSize_arg = Some 3, autoCleanup_arg = Some False,
              cleanupInterval_arg = None \<rparr>"
  let ?S = "run_ops example_runtime (new_ResponseCache ?o)
       [Set ''k1'' [] 1 None 1, Set ''k2'' [] 2 None 2, Set ''k3'' [] 3 None 3]"
  note T = set_evicts_first_least_recently_accessed [where s = ?S and rt = example_runtime
      and operation = "''k4''" and params = "[]" and d = 4 and customTtl = None and now = 5
      and opts = ?o
      and ?o1.0 = "''k1''" and ?p1.0 = "[]" and ?v1.0 = 1 and ?t1.0 = 1
      and ?o2.0 = "''k2''" and ?p2.0 = "[]" and ?v2.0 = 2 and ?t2.0 = 2
      and ?o3.0 = "''k3''" and ?p3.0 = "[]" and ?v3.0 = 3 and ?t3.0 = 3
      and ?o4.0 = "''k4''" and ?p4.0 = "[]" and ?v4.0 = 4 and ?t4.0 = 4 and ?t5.0 = 5
      and ?t6.0 = 6]
  have c: "cache ?S = [(''k1_k1:'', \<lparr> data = 1, timestamp = 1, ttl = 1000, accessCount = 1, lastAccessed = 1 \<rparr>),
                       (''k2_k2:'', \<lparr> data = 2, timestamp = 2, ttl = 1000, accessCount = 1, lastAccessed = 2 \<rparr>),
                       (''k3_k3:'', \<lparr> data = 3, timestamp = 3, ttl = 1000, accessCount = 1, lastAccessed = 3 \<rparr>)]"
    and o: "maxSize (options ?S) = 3"
    by (simp_all add: run_ops_def new_ResponseCache_def set_op_def example_key_nil)
  have A: "distinct (map fst (cache ?S)) \<and> [] \<notin> fst ` set (cache ?S) \<and> cache ?S \<noteq> []
      \<and> maxSize (options ?S) \<le> int (length (cache ?S))"
    by (simp add: c o)
  have C: "maxSize_arg ?o = Some 3
      \<and> distinct [generateKey example_runtime ''k1'' [], generateKey example_runtime ''k2'' [],
                   generateKey example_runtime ''k3'' [], generateKey example_runtime ''k4'' []]
      \<and> (2::int) \<le> 3 \<and> (2::int) < 4
      \<and> 4 - 1 \<le> ttl_opt (options (new_ResponseCache ?o :: int ResponseCache))"
    by (simp add: example_key_nil new_ResponseCache_def)
  from T [THEN conjunct1, THEN mp, OF A] have B: "\<exists>pre k e post.
         cache ?S = pre @ (k, e) # post \<and> cache (evictLeastRecentlyUsed ?S) = pre @ post"
    by blast
  have l: "(6::int) - 1 \<le> ttl_opt (options (new_ResponseCache ?o :: int ResponseCache))"
    by (simp add: new_ResponseCache_def)
  have l': "(6::int) - 5 \<le> ttl_opt (options (new_ResponseCache ?o :: int ResponseCache))"
    by (simp add: new_ResponseCache_def)
  from T [THEN conjunct2, THEN mp, OF C] l l' have D:
    "map fst (cache (run_ops example_runtime (new_ResponseCache ?o)
        [Set ''k1'' [] 1 None 1, Set ''k2'' [] 2 None 2, Set ''k3'' [] 3 None 3,
         Get ''k1'' [] 4, Set ''k4'' [] 4 None 5]))
       = [generateKey example_runtime ''k1'' [], generateKey example_runtime ''k3'' [],
          generateKey example_runtime ''k4'' []]
   \<and> fst (get example_runtime (run_ops example_runtime (new_ResponseCache ?o)
        [Set ''k1'' [] 1 None 1, Set ''k2'' [] 2 None 2, Set ''k3'' [] 3 None 3,
         Get ''k1'' [] 4, Set ''k4'' [] 4 None 5]) ''k1'' [] 6) = Some 1
   \<and> fst (get example_runtime (run_ops example_runtime (new_ResponseCache ?o)
        [Set ''k1'' [] 1 None 1, Set ''k2'' [] 2 None 2, Set ''k3'' [] 3 None 3,
         Get ''k1'' [] 4, Set ''k4'' [] 4 None 5]) ''k2'' [] 6) = None
   \<and> fst (get example_runtime (run_ops example_runtime (new_ResponseCache ?o)
        [Set ''k1'' [] 1 None 1, Set ''k2'' [] 2 None 2, Set ''k3'' [] 3 None 3,
         Get ''k1'' [] 4, Set ''k4'' [] 4 None 5]) ''k4'' [] 6) = Some 4"
    by blast
  show ?thesis
    unfolding example_cache_def using A B C D by blast
qed

text \<open>
  The claim as stated fails in two ways. When every call falls in the same millisecond
  the read does not make \<open>k1\<close> younger than \<open>k2\<close> and \<open>k3\<close>, and \<open>k1\<close>, first in the
  store, is the entry evicted. And the scan does not look at expiry: with \<open>maxSize = 2\<close>,
  \<open>k1\<close> stored at 0 with a ttl of 10 and \<open>k2\<close> stored at 50, a set at 100 evicts the
  expired \<open>k1\<close>, not \<open>k2\<close>, the oldest of the live entries.
\<close>

theorem eviction_counterexample:
  "map fst (cache (run_ops example_runtime (example_cache 1000 3)
      [Set ''k1'' [] 1 None 0, Set ''k2'' [] 2 None 0, Set ''k3'' [] 3 None 0,
       Get ''k1'' [] 0, Set ''k4'' [] 4 None 0]))
     = [generateKey example_runtime ''k2'' [], generateKey example_runtime ''k3'' [],
        generateKey example_runtime ''k4'' []]
   \<and> fst (get example_runtime (run_ops example_runtime (example_cache 1000 3)
      [Set ''k1'' [] 1 None 0, Set ''k2'' [] 2 None 0, Set ''k3'' [] 3 None 0,
       Get ''k1'' [] 0, Set ''k4'' [] 4 None 0]) ''k1'' [] 0) = None
   \<and> cache (run_ops example_runtime (example_cache 1000 2)
      [Set ''k1'' [] 1 (Some 10) 0, Set ''k2'' [] 2 None 50])
     = [(generateKey example_runtime ''k1'' [],
         \<lparr> data = 1, timestamp = 0, ttl = 10, accessCount = 1, lastAccessed = 0 \<rparr>),
        (generateKey example_runtime ''k2'' [],
         \<lparr> data = 2, timestamp = 50, ttl = 1000, accessCount = 1, lastAccessed = 50 \<rparr>)]
   \<and> map fst (cache (run_ops example_runtime (example_cache 1000 2)
      [Set ''k1'' [] 1 (Some 10) 0, Set ''k2'' [] 2 None 50, Set ''k3'' [] 3 None 100]))
     = [generateKey example_runtime ''k2'' [], generateKey example_runtime ''k3'' []]"
  by (simp add: run_ops_def example_cache_def new_ResponseCache_def set_op_def get_def
        evictLeastRecentlyUsed_def example_key_nil)

text \<open>
  Claim C2 at its failing input. A cache with \<open>maxSize = 2\<close> holds \<open>k1\<close> and \<open>k2\<close>. Setting
  \<open>k2\<close> again, a key that is present, evicts \<open>k1\<close>: the store is left with one entry.
\<close>

theorem overwrite_at_capacity_evicts:
  "cache (run_ops example_runtime (example_cache 1000 2)
            [Set ''k1'' [] 1 None 1, Set ''k2'' [] 2 None 2])
     = [(generateKey example_runtime ''k1'' [],
         \<lparr> data = 1, timestamp = 1, ttl = 1000, accessCount = 1, lastAccessed = 1 \<rparr>),
        (generateKey example_runtime ''k2'' [],
         \<lparr> data = 2, timestamp = 2, ttl = 1000, accessCount = 1, lastAccessed = 2 \<rparr>)]
   \<and> cache (run_ops example_runtime (example_cache 1000 2)
            [Set ''k1'' [] 1 None 1, Set ''k2'' [] 2 None 2, Set ''k2'' [] 3 None 3])
     = [(generateKey example_runtime ''k2'' [],
         \<lparr> data = 3, timestamp = 3, ttl = 1000, accessCount = 1, lastAccessed = 3 \<rparr>)]"
  by (simp add: run_ops_def example_cache_def new_ResponseCache_def set_op_def
        evictLeastRecentlyUsed_def example_key_nil)

end
